theory Spec2Isabelle
  imports Main "HOL-Library.Char_ord" "HOL-Library.List_Lexorder"
begin

section \<open>Strings and regular expressions of the comparison screen\<close>

text \<open>
  The comparison screen (\<^verbatim>\<open>src/app/(tabs)/compare.jsx\<close>) scrapes a device article with
  three JavaScript regular expressions. A JavaScript string is modelled as a \<^typ>\<open>string\<close>
  whose characters are the code units below 256. The expressions use only literals,
  character classes and greedy or lazy repetition of one class, so a pattern is a list of
  items and the matcher is the backtracking search of the language: a greedy repetition
  first tries one more character, a lazy one first tries to go on with the rest of the
  pattern.
\<close>

datatype cls = OneOf string | NoneOf string | Whitespace | AnyChar

text \<open>The class \<^verbatim>\<open>\s\<close> (and the characters \<^verbatim>\<open>trim\<close> removes), below code 256.\<close>

definition isSpace :: "char \<Rightarrow> bool" where
  "isSpace c = (c \<in> set [CHR 0x09, CHR 0x0A, CHR 0x0B, CHR 0x0C, CHR 0x0D, CHR 0x20, CHR 0xA0])"

fun inClass :: "cls \<Rightarrow> char \<Rightarrow> bool" where
  "inClass (OneOf cs) c = (c \<in> set cs)"
| "inClass (NoneOf cs) c = (c \<notin> set cs)"
| "inClass Whitespace c = isSpace c"
| "inClass AnyChar c = True"

text \<open>
  \<open>Lit\<close> is a literal, \<open>One\<close> a class, \<open>Star\<close> and \<open>Plus\<close> the greedy \<^verbatim>\<open>*\<close> and
  \<^verbatim>\<open>+\<close>, \<open>LazyStar\<close> and \<open>LazyPlus\<close> the lazy \<^verbatim>\<open>*?\<close> and \<^verbatim>\<open>+?\<close>; \<open>GroupOpen\<close> and
  \<open>GroupClose\<close> are the parentheses of a capture group.
\<close>

datatype item =
    Lit string | One cls | Star cls | Plus cls | LazyStar cls | LazyPlus cls
  | GroupOpen | GroupClose

fun dropLit :: "string \<Rightarrow> string \<Rightarrow> string option" where
  "dropLit [] s = Some s"
| "dropLit (c # cs) [] = None"
| "dropLit (c # cs) (x # xs) = (if c = x then dropLit cs xs else None)"

text \<open>
  \<open>rmatch r s ms\<close> matches the pattern \<open>r\<close> at the start of \<open>s\<close>. It returns the
  input left after the match and, in \<open>ms\<close>, the input that was left at each parenthesis
  passed, in order.
\<close>

fun rmatch :: "item list \<Rightarrow> string \<Rightarrow> string list \<Rightarrow> (string list \<times> string) option" where
  "rmatch [] s ms = Some (ms, s)"
| "rmatch (Lit l # r) s ms =
     (case dropLit l s of None \<Rightarrow> None | Some s' \<Rightarrow> rmatch r s' ms)"
| "rmatch (One c # r) [] ms = None"
| "rmatch (One c # r) (x # xs) ms = (if inClass c x then rmatch r xs ms else None)"
| "rmatch (Star c # r) [] ms = rmatch r [] ms"
| "rmatch (Star c # r) (x # xs) ms =
     (if inClass c x
      then (case rmatch (Star c # r) xs ms of
              Some m \<Rightarrow> Some m
            | None \<Rightarrow> rmatch r (x # xs) ms)
      else rmatch r (x # xs) ms)"
| "rmatch (Plus c # r) [] ms = None"
| "rmatch (Plus c # r) (x # xs) ms =
     (if inClass c x then rmatch (Star c # r) xs ms else None)"
| "rmatch (LazyStar c # r) [] ms = rmatch r [] ms"
| "rmatch (LazyStar c # r) (x # xs) ms =
     (case rmatch r (x # xs) ms of
        Some m \<Rightarrow> Some m
      | None \<Rightarrow> if inClass c x then rmatch (LazyStar c # r) xs ms else None)"
| "rmatch (LazyPlus c # r) [] ms = None"
| "rmatch (LazyPlus c # r) (x # xs) ms =
     (if inClass c x then rmatch (LazyStar c # r) xs ms else None)"
| "rmatch (GroupOpen # r) s ms = rmatch r s (ms @ [s])"
| "rmatch (GroupClose # r) s ms = rmatch r s (ms @ [s])"

text \<open>The text between two positions of one input, each given by the input left there.\<close>

definition between :: "string \<Rightarrow> string \<Rightarrow> string" where
  "between a b = take (length a - length b) a"

text \<open>\<open>group ms n\<close> is capture group \<open>n\<close> (from 1) of a match that passed the parentheses \<open>ms\<close>.\<close>

definition group :: "string list \<Rightarrow> nat \<Rightarrow> string" where
  "group ms n = between (ms ! (2 * n - 2)) (ms ! (2 * n - 1))"

text \<open>
  \<^verbatim>\<open>regex.exec\<close> of a global expression, from the position where \<open>s\<close> starts: the
  leftmost position at which the pattern matches.
\<close>

fun exec :: "item list \<Rightarrow> string \<Rightarrow> (string list \<times> string) option" where
  "exec r [] = rmatch r [] []"
| "exec r (x # xs) =
     (case rmatch r (x # xs) [] of Some m \<Rightarrow> Some m | None \<Rightarrow> exec r xs)"

text \<open>
  \<^verbatim>\<open>String.prototype.replace\<close> with a global expression and a constant replacement:
  every match, left to right, is replaced; after an empty match the search moves on by
  one character.
\<close>

function replaceAll :: "item list \<Rightarrow> string \<Rightarrow> string \<Rightarrow> string" where
  "replaceAll r rep [] = (case rmatch r [] [] of Some m \<Rightarrow> rep | None \<Rightarrow> [])"
| "replaceAll r rep (x # xs) =
     (case rmatch r (x # xs) [] of
        Some (ms, rest) \<Rightarrow>
          if length rest < Suc (length xs) then rep @ replaceAll r rep rest
          else rep @ x # replaceAll r rep xs
      | None \<Rightarrow> x # replaceAll r rep xs)"
  by pat_completeness auto
termination
  by (relation "measure (\<lambda>(r, rep, s). length s)") auto

text \<open>\<^verbatim>\<open>String.prototype.trim\<close>.\<close>

definition trim :: "string \<Rightarrow> string" where
  "trim s = rev (dropWhile isSpace (rev (dropWhile isSpace s)))"

text \<open>The expressions \<^verbatim>\<open>/<[^>]+>/g\<close> and \<^verbatim>\<open>/\s+/g\<close> of \<^verbatim>\<open>cleanHTMLContent\<close>.\<close>

definition tagRegex :: "item list" where
  "tagRegex = [Lit ''<'', Plus (NoneOf ''>''), Lit ''>'']"

definition spacesRegex :: "item list" where
  "spacesRegex = [Plus Whitespace]"

definition cleanHTMLContent :: "string \<Rightarrow> string" where
  "cleanHTMLContent content = trim (replaceAll spacesRegex '' '' (replaceAll tagRegex [] content))"

text \<open>
  The expression of \<^verbatim>\<open>extractSpecifications\<close>:
  \<^verbatim>\<open><h[2-4][^>]*>([\s\S]*?)<\/h[2-4]>\s*<figure[^>]*>\s*<table[^>]*>([\s\S]+?)<\/table>\s*<\/figure>\<close>
\<close>

definition specRegex :: "item list" where
  "specRegex =
     [Lit ''<h'', One (OneOf ''234''), Star (NoneOf ''>''), Lit ''>'',
      GroupOpen, LazyStar AnyChar, GroupClose,
      Lit ''</h'', One (OneOf ''234''), Lit ''>'', Star Whitespace,
      Lit ''<figure'', Star (NoneOf ''>''), Lit ''>'', Star Whitespace,
      Lit ''<table'', Star (NoneOf ''>''), Lit ''>'',
      GroupOpen, LazyPlus AnyChar, GroupClose,
      Lit ''</table>'', Star Whitespace, Lit ''</figure>'']"

section \<open>The parsed table\<close>

text \<open>
  The table of a matched block is parsed by \<^verbatim>\<open>DOMParser\<close> of the library
  \<^verbatim>\<open>react-native-html-parser\<close>, which is not part of the repository: the parser is a
  parameter \<open>parseFromString\<close> of the extractor. What the extractor does with the
  parsed document is modelled on the tree: \<^verbatim>\<open>getElementsByTagName\<close> lists the
  descendant elements of a name in document order, \<^verbatim>\<open>textContent\<close> concatenates the
  text below a node.
\<close>

datatype node = Text string | Element string "node list"

fun textContent :: "node \<Rightarrow> string" where
  "textContent (Text t) = t"
| "textContent (Element tag kids) = concat (map textContent kids)"

fun isElement :: "string \<Rightarrow> node \<Rightarrow> bool" where
  "isElement name (Text t) = False"
| "isElement name (Element tag kids) = (tag = name)"

fun getElementsByTagName :: "string \<Rightarrow> node \<Rightarrow> node list" where
  "getElementsByTagName name (Text t) = []"
| "getElementsByTagName name (Element tag kids) =
     concat (map (\<lambda>k. (if isElement name k then [k] else []) @ getElementsByTagName name k) kids)"

section \<open>The specification extractor\<close>

record spec =
  "specification" :: string
  "value" :: string

type_synonym specs = "string \<rightharpoonup> spec list"

text \<open>
  The \<^verbatim>\<open>for\<close> loop over the rows of one table: a row with exactly two \<^verbatim>\<open>td\<close>
  cells pushes one entry.
\<close>

fun rowsLoop :: "node list \<Rightarrow> spec list \<Rightarrow> spec list" where
  "rowsLoop [] categoryDetails = categoryDetails"
| "rowsLoop (row # rows) categoryDetails =
     (let cells = getElementsByTagName ''td'' row
      in if length cells = 2
         then rowsLoop rows
                (categoryDetails @
                 [\<lparr>specification = cleanHTMLContent (textContent (cells ! 0)),
                   value = cleanHTMLContent (textContent (cells ! 1))\<rparr>])
         else rowsLoop rows categoryDetails)"

text \<open>
  \<^verbatim>\<open>specifications[category] = categoryDetails\<close> on a plain object: the key
  \<^verbatim>\<open>__proto__\<close> is the accessor of the prototype, so assigning to it adds no property.
\<close>

definition assign :: "specs \<Rightarrow> string \<Rightarrow> spec list \<Rightarrow> specs" where
  "assign specifications category categoryDetails =
     (if category = ''__proto__'' then specifications
      else specifications(category \<mapsto> categoryDetails))"

text \<open>The body of the \<^verbatim>\<open>while\<close> loop, for one match.\<close>

definition addBlock :: "(string \<Rightarrow> node) \<Rightarrow> string list \<Rightarrow> specs \<Rightarrow> specs" where
  "addBlock parseFromString matches specifications =
     (let rawHeading = group matches 1;
          category = cleanHTMLContent rawHeading;
          tableHTML = ''<table>'' @ group matches 2 @ ''</table>'';
          doc = parseFromString tableHTML;
          rows = getElementsByTagName ''tr'' doc;
          categoryDetails = rowsLoop rows []
      in if length categoryDetails > 0
         then assign specifications category categoryDetails
         else specifications)"

lemma dropLit_length: "dropLit l s = Some s' \<Longrightarrow> length s' + length l = length s"
  by (induction l s rule: dropLit.induct) (auto split: if_splits)

lemma rmatch_length: "rmatch r s ms = Some (ms', rest) \<Longrightarrow> length rest \<le> length s"
proof (induction r s ms arbitrary: ms' rest rule: rmatch.induct)
  case (2 l r s ms)
  then show ?case
    by (fastforce split: option.splits dest: dropLit_length)
next
  case (6 c r x xs ms)
  then show ?case
    by (fastforce split: option.splits if_splits)
next
  case (10 c r x xs ms)
  then show ?case
    by (fastforce split: option.splits if_splits)
qed (fastforce split: option.splits if_splits)+

lemma rmatch_specRegex_shorter:
  assumes "rmatch specRegex s [] = Some (ms, rest)"
  shows "length rest < length s"
proof -
  obtain r where r: "specRegex = Lit ''<h'' # r"
    by (simp add: specRegex_def)
  from assms obtain s' where s': "dropLit ''<h'' s = Some s'" and m: "rmatch r s' [] = Some (ms, rest)"
    unfolding r by (auto split: option.splits)
  from dropLit_length [OF s'] rmatch_length [OF m] show ?thesis
    by simp
qed

lemma exec_specRegex_shorter: "exec specRegex s = Some (ms, rest) \<Longrightarrow> length rest < length s"
proof (induction s)
  case Nil
  then show ?case
    using rmatch_specRegex_shorter [of "[]" ms rest] by simp
next
  case (Cons x xs)
  then show ?case
    using rmatch_specRegex_shorter [of "x # xs" ms rest]
    by (auto split: option.splits)
qed

text \<open>
  The \<^verbatim>\<open>while ((matches = regex.exec(content)) !== null)\<close> loop: \<open>content\<close> is the
  input from \<^verbatim>\<open>lastIndex\<close> on. Every match is at least two characters long, so the
  loop ends.
\<close>

function specLoop :: "(string \<Rightarrow> node) \<Rightarrow> string \<Rightarrow> specs \<Rightarrow> specs" where
  "specLoop parseFromString content specifications =
     (case exec specRegex content of
        None \<Rightarrow> specifications
      | Some (matches, rest) \<Rightarrow>
          specLoop parseFromString rest (addBlock parseFromString matches specifications))"
  by pat_completeness auto
termination
  by (relation "measure (\<lambda>(p, content, specifications). length content)")
     (auto dest: exec_specRegex_shorter)

definition extractSpecifications :: "(string \<Rightarrow> node) \<Rightarrow> string \<Rightarrow> specs" where
  "extractSpecifications parseFromString content = specLoop parseFromString content Map.empty"










section \<open>The comparison table\<close>

text \<open>
  \<^verbatim>\<open>renderComparisonTable\<close> builds the table body from the specifications of the two
  devices. What it renders is modelled as data: one block per category shown, each with its
  rows of three cells (the attribute and the value of either device).
\<close>

definition categories :: "string list" where
  "categories =
     [''General'', ''Display'', ''Hardware'', ''Camera'', ''Software'',
      ''Connectivity'', ''Sensors'', ''Battery'']"

text \<open>\<^verbatim>\<open>deviceSpecs[category] || []\<close>\<close>

definition entriesOf :: "specs \<Rightarrow> string \<Rightarrow> spec list" where
  "entriesOf deviceSpecs c = (case deviceSpecs c of Some es \<Rightarrow> es | None \<Rightarrow> [])"

text \<open>\<^verbatim>\<open>Set.prototype.add\<close>: a set keeps its elements in the order they were first added.\<close>

definition setAdd :: "string list \<Rightarrow> string \<Rightarrow> string list" where
  "setAdd s x = (if x \<in> set s then s else s @ [x])"

definition addSpecs :: "spec list \<Rightarrow> string list \<Rightarrow> string list" where
  "addSpecs es s = fold (\<lambda>e a. setAdd a (specification e)) es s"

definition allSpecs :: "specs \<Rightarrow> specs \<Rightarrow> string list" where
  "allSpecs device1Specs device2Specs =
     fold (\<lambda>c s. addSpecs (entriesOf device2Specs c) (addSpecs (entriesOf device1Specs c) s))
       categories []"

text \<open>
  \<^verbatim>\<open>Array.from(allSpecs).sort()\<close>: the default order of \<^verbatim>\<open>sort\<close> on strings compares
  code units, the lexicographic order of \<^typ>\<open>string\<close>.
\<close>

definition sortedAllSpecs :: "specs \<Rightarrow> specs \<Rightarrow> string list" where
  "sortedAllSpecs device1Specs device2Specs = sort (allSpecs device1Specs device2Specs)"

definition getSpecValue :: "specs \<Rightarrow> string \<Rightarrow> string \<Rightarrow> string" where
  "getSpecValue deviceSpecMap c specName =
     (case find (\<lambda>s. specification s = specName) (entriesOf deviceSpecMap c) of
        Some found \<Rightarrow> value found
      | None \<Rightarrow> ''N/A'')"

definition categorySpecsInUse :: "specs \<Rightarrow> specs \<Rightarrow> string \<Rightarrow> string list" where
  "categorySpecsInUse device1Specs device2Specs c =
     filter (\<lambda>specName.
         list_ex (\<lambda>s. specification s = specName) (entriesOf device1Specs c) \<or>
         list_ex (\<lambda>s. specification s = specName) (entriesOf device2Specs c))
       (sortedAllSpecs device1Specs device2Specs)"

record row =
  attribute :: string
  valueA :: string
  valueB :: string

record block =
  category :: string
  rows :: "row list"

text \<open>The body of the table: \<^verbatim>\<open>categories.map\<close>, where an empty category renders nothing.\<close>

definition tableBody :: "specs \<Rightarrow> specs \<Rightarrow> block list" where
  "tableBody device1Specs device2Specs =
     concat (map (\<lambda>c.
         let inUse = categorySpecsInUse device1Specs device2Specs c
         in if length inUse = 0 then []
            else [\<lparr>category = c,
                   rows = map (\<lambda>specName.
                       \<lparr>attribute = specName,
                        valueA = getSpecValue device1Specs c specName,
                        valueB = getSpecValue device2Specs c specName\<rparr>) inUse\<rparr>])
       categories)"

section \<open>A parser for well-nested markup\<close>

text \<open>
  An instance of the parser parameter, to run the extractor on concrete bodies: tags
  without a closing slash of their own open an element, a closing tag closes the innermost
  open element, everything else is text. The name of a tag ends at its first white space.
\<close>

datatype mode = InText | InTag

type_synonym stack = "(string \<times> node list) list"

fun closeTop :: "stack \<Rightarrow> stack" where
  "closeTop ((tag, kids) # (tag', kids') # stack) = (tag', kids' @ [Element tag kids]) # stack"
| "closeTop stack = stack"

fun addText :: "string \<Rightarrow> stack \<Rightarrow> stack" where
  "addText buf [] = []"
| "addText buf ((tag, kids) # stack) =
     (if buf = [] then (tag, kids) # stack else (tag, kids @ [Text buf]) # stack)"

fun applyTag :: "string \<Rightarrow> stack \<Rightarrow> stack" where
  "applyTag [] stack = stack"
| "applyTag (c # cs) stack =
     (if c = CHR ''/'' then closeTop stack
      else (takeWhile (\<lambda>x. \<not> isSpace x) (c # cs), []) # stack)"

fun scan :: "string \<Rightarrow> mode \<Rightarrow> string \<Rightarrow> stack \<Rightarrow> stack" where
  "scan [] InText buf stack = addText buf stack"
| "scan [] InTag buf stack = stack"
| "scan (c # cs) InText buf stack =
     (if c = CHR ''<'' then scan cs InTag [] (addText buf stack)
      else scan cs InText (buf @ [c]) stack)"
| "scan (c # cs) InTag buf stack =
     (if c = CHR ''>'' then scan cs InText [] (applyTag buf stack)
      else scan cs InTag (buf @ [c]) stack)"

fun closeAll :: "stack \<Rightarrow> node" where
  "closeAll [] = Element ''#document'' []"
| "closeAll [(tag, kids)] = Element tag kids"
| "closeAll ((tag, kids) # (tag', kids') # stack) =
     closeAll ((tag', kids' @ [Element tag kids]) # stack)"

definition parseMarkup :: "string \<Rightarrow> node" where
  "parseMarkup s = closeAll (scan s InText [] [(''#document'', [])])"

section \<open>The selection state machine\<close>

text \<open>
  The \<^verbatim>\<open>Compare\<close> component: its React state, the navigation parameters, the pending
  timeouts and the requests under way, as one record. A handler is a function on this
  record; what an \<^verbatim>\<open>await\<close> resumes with is an event of its own. The two-element arrays
  of the component are lists. The component reads and writes them at the indices 0 and 1
  only, so a write past the end, which would extend a JavaScript array, does not occur.
\<close>

record post =
  post_id :: string
  title :: string
  slug :: string
  content :: "string option"
  sourceUrl :: "string option"

text \<open>
  What a request ends with. \<^verbatim>\<open>fetchGraphQL\<close> logs a failed transport (\<open>NetworkError\<close>)
  and an error payload (\<open>ApiError\<close>) and returns \<^verbatim>\<open>null\<close> for either.
\<close>

datatype 'a outcome = Ok 'a | NetworkError | ApiError

fun fetchGraphQL :: "'a outcome \<Rightarrow> 'a option" where
  "fetchGraphQL (Ok d) = Some d"
| "fetchGraphQL NetworkError = None"
| "fetchGraphQL ApiError = None"

text \<open>
  \<open>timers\<close> are the pending timeouts (identifier, time due, the query the call-back
  carries); \<open>searchCalls\<close> and \<open>detailCalls\<close> log every request sent;
  \<open>selectedDevicesId\<close> and \<open>fetchDeviceDetailsId\<close> stand for the identity of the
  \<^verbatim>\<open>selectedDevices\<close> array and of the \<^verbatim>\<open>fetchDeviceDetails\<close> call-back, which React
  compares to decide whether the effect runs; \<open>effectDeps\<close> are the dependencies the
  effect last ran with.
\<close>

record screen =
  device1SlugParam :: "string option"
  device2SlugParam :: "string option"
  fetchedDevicesCache :: "string \<rightharpoonup> post"
  currentSearchResults :: "post list"
  searchQueries :: "string list"
  selectedDevices :: "post option list"
  fetchingIndividualDetails :: "bool list"
  debounceTimeoutRefs :: "string \<rightharpoonup> nat"
  clock :: nat
  timers :: "(nat \<times> nat \<times> string) list"
  nextTimer :: nat
  searchCalls :: "string list"
  searchesInFlight :: "string list"
  detailCalls :: "string list"
  detailsInFlight :: "(string \<times> nat) list"
  selectedDevicesId :: nat
  fetchDeviceDetailsId :: nat
  effectDeps :: "(string option \<times> string option \<times> nat \<times> nat) option"

definition initial :: screen where
  "initial =
     \<lparr>device1SlugParam = None, device2SlugParam = None,
      fetchedDevicesCache = Map.empty, currentSearchResults = [],
      searchQueries = [[], []], selectedDevices = [None, None],
      fetchingIndividualDetails = [False, False], debounceTimeoutRefs = Map.empty,
      clock = 0, timers = [], nextTimer = 0,
      searchCalls = [], searchesInFlight = [], detailCalls = [], detailsInFlight = [],
      selectedDevicesId = 0, fetchDeviceDetailsId = 0, effectDeps = None\<rparr>"

text \<open>The state setters, each called with an updater that copies the array and writes one index.\<close>

definition setSelectedDevices :: "nat \<Rightarrow> post option \<Rightarrow> screen \<Rightarrow> screen" where
  "setSelectedDevices idx d s =
     s\<lparr>selectedDevices := (selectedDevices s)[idx := d],
       selectedDevicesId := Suc (selectedDevicesId s)\<rparr>"

definition setFetchingIndividualDetails :: "nat \<Rightarrow> bool \<Rightarrow> screen \<Rightarrow> screen" where
  "setFetchingIndividualDetails idx b s =
     s\<lparr>fetchingIndividualDetails := (fetchingIndividualDetails s)[idx := b]\<rparr>"

definition setSearchQueries :: "nat \<Rightarrow> string \<Rightarrow> screen \<Rightarrow> screen" where
  "setSearchQueries idx text s = s\<lparr>searchQueries := (searchQueries s)[idx := text]\<rparr>"

definition setCurrentSearchResults :: "post list \<Rightarrow> screen \<Rightarrow> screen" where
  "setCurrentSearchResults nodes s = s\<lparr>currentSearchResults := nodes\<rparr>"

text \<open>\<^verbatim>\<open>router.setParams\<close> with the parameter of one slot replaced.\<close>

definition setParams :: "nat \<Rightarrow> string option \<Rightarrow> screen \<Rightarrow> screen" where
  "setParams idx p s =
     (if idx = 0 then s\<lparr>device1SlugParam := p\<rparr>
      else if idx = 1 then s\<lparr>device2SlugParam := p\<rparr>
      else s)"

subsection \<open>Debounced search\<close>

text \<open>
  \<^verbatim>\<open>customDebounce\<close> keeps its timeout under the key \<^verbatim>\<open>func.name\<close>. The function it is
  given is the arrow function \<^verbatim>\<open>(query) => searchPosts(query)\<close>, written in the call, whose
  name is the empty string; the delay is 500.
\<close>

definition funcName :: string where
  "funcName = []"

definition delay :: nat where
  "delay = 500"

fun clearTimeout :: "nat option \<Rightarrow> screen \<Rightarrow> screen" where
  "clearTimeout None s = s"
| "clearTimeout (Some i) s = s\<lparr>timers := filter (\<lambda>(j, due, q). j \<noteq> i) (timers s)\<rparr>"

definition debouncedSearchHandler :: "string \<Rightarrow> screen \<Rightarrow> screen" where
  "debouncedSearchHandler query s =
     (let s1 = clearTimeout (debounceTimeoutRefs s funcName) s;
          i = nextTimer s1
      in s1\<lparr>timers := timers s1 @ [(i, clock s1 + delay, query)],
            nextTimer := Suc i,
            debounceTimeoutRefs := (debounceTimeoutRefs s1)(funcName \<mapsto> i)\<rparr>)"

text \<open>\<^verbatim>\<open>searchPosts\<close> up to its \<^verbatim>\<open>await\<close>, and what it does with the answer.\<close>

definition searchPosts :: "string \<Rightarrow> screen \<Rightarrow> screen" where
  "searchPosts query s =
     (if trim query = [] then setCurrentSearchResults [] s
      else s\<lparr>searchCalls := searchCalls s @ [query],
             searchesInFlight := searchesInFlight s @ [query]\<rparr>)"

definition searchPostsResume :: "post list outcome \<Rightarrow> screen \<Rightarrow> screen" where
  "searchPostsResume answer s =
     (case fetchGraphQL answer of
        Some nodes \<Rightarrow> setCurrentSearchResults nodes s
      | None \<Rightarrow> setCurrentSearchResults [] s)"

definition handleSearchInputChange :: "string \<Rightarrow> nat \<Rightarrow> screen \<Rightarrow> screen" where
  "handleSearchInputChange text idx s =
     (let s1 = setSearchQueries idx text s
      in if trim text \<noteq> [] then debouncedSearchHandler text s1
         else setCurrentSearchResults [] s1)"

text \<open>
  Time passes: the timeouts that have come due run in the order of their times, each
  calling \<^verbatim>\<open>searchPosts\<close> with its query.
\<close>

definition elapse :: "nat \<Rightarrow> screen \<Rightarrow> screen" where
  "elapse d s =
     (let now = clock s + d;
          due = filter (\<lambda>(i, at, q). at \<le> now) (timers s);
          later = filter (\<lambda>(i, at, q). \<not> at \<le> now) (timers s)
      in fold (\<lambda>(i, at, q). searchPosts q) (sort_key (\<lambda>(i, at, q). at) due)
           (s\<lparr>clock := now, timers := later\<rparr>))"

subsection \<open>Fetching a device\<close>

text \<open>
  \<^verbatim>\<open>fetchDeviceDetails\<close> up to its \<^verbatim>\<open>await\<close>. The call-back reads the cache of the
  render it was made in, \<open>cache\<close>; the state is written through updaters. The cache is
  read as the map of the keys stored in it: a slug that names a member of
  \<^verbatim>\<open>Object.prototype\<close> (\<^verbatim>\<open>constructor\<close>, \<^verbatim>\<open>toString\<close>), which the lookup on a plain
  object would find, is not covered.
\<close>

definition fetchDeviceDetails :: "(string \<rightharpoonup> post) \<Rightarrow> string \<Rightarrow> nat \<Rightarrow> screen \<Rightarrow> screen" where
  "fetchDeviceDetails cache deviceSlug idx s =
     (case cache deviceSlug of
        Some d \<Rightarrow> setSelectedDevices idx (Some d) s
      | None \<Rightarrow>
          (setFetchingIndividualDetails idx True s)
            \<lparr>detailCalls := detailCalls s @ [deviceSlug],
             detailsInFlight := detailsInFlight s @ [(deviceSlug, idx)]\<rparr>)"

text \<open>
  What \<^verbatim>\<open>fetchDeviceDetails\<close> resumes with: \<^verbatim>\<open>data?.post\<close> is the post, or nothing when
  the request failed or the slug names no post; \<^verbatim>\<open>finally\<close> clears the loading flag.
\<close>

definition fetchDeviceDetailsResume ::
    "string \<Rightarrow> nat \<Rightarrow> post option outcome \<Rightarrow> screen \<Rightarrow> screen" where
  "fetchDeviceDetailsResume deviceSlug idx answer s =
     setFetchingIndividualDetails idx False
       (case (case fetchGraphQL answer of Some data \<Rightarrow> data | None \<Rightarrow> None) of
          Some p \<Rightarrow>
            setSelectedDevices idx (Some p)
              (s\<lparr>fetchedDevicesCache := (fetchedDevicesCache s)(deviceSlug \<mapsto> p),
                 fetchDeviceDetailsId := Suc (fetchDeviceDetailsId s)\<rparr>)
        | None \<Rightarrow> setSelectedDevices idx None s)"

subsection \<open>Reconciliation with the navigation parameters\<close>

text \<open>A parameter is used when it is a non-empty string.\<close>

fun truthy :: "string option \<Rightarrow> bool" where
  "truthy None = False"
| "truthy (Some t) = (t \<noteq> [])"

text \<open>\<^verbatim>\<open>selectedDevices[idx]\<close>: reading past the end of an array gives \<^verbatim>\<open>undefined\<close>.\<close>

definition slotOf :: "post option list \<Rightarrow> nat \<Rightarrow> post option" where
  "slotOf devices idx = (if idx < length devices then devices ! idx else None)"

text \<open>
  The body of the effect for one slot. \<open>render\<close> is the state the effect was made in:
  the parameters, the selection and the cache are read from it.
\<close>

definition reconcileSlot :: "screen \<Rightarrow> nat \<times> string option \<Rightarrow> screen \<Rightarrow> screen" where
  "reconcileSlot render = (\<lambda>(idx, p) s.
     if truthy p \<and>
        (case slotOf (selectedDevices render) idx of
           None \<Rightarrow> True
         | Some d \<Rightarrow> Some (slug d) \<noteq> p)
     then fetchDeviceDetails (fetchedDevicesCache render) (the p) idx s
     else if \<not> truthy p \<and> slotOf (selectedDevices render) idx \<noteq> None
     then setSelectedDevices idx None s
     else s)"

definition slugs :: "screen \<Rightarrow> string option list" where
  "slugs s = [device1SlugParam s, device2SlugParam s]"

definition reconciliation :: "screen \<Rightarrow> screen" where
  "reconciliation s = fold (reconcileSlot s) (enumerate 0 (slugs s)) s"

text \<open>
  After a render React runs the effect when one of its dependencies
  \<^verbatim>\<open>[device1SlugParam, device2SlugParam, selectedDevices, fetchDeviceDetails]\<close> is not the
  one it last ran with. \<open>commit\<close> is one such run. When the effect itself replaces
  \<^verbatim>\<open>selectedDevices\<close> (a device found in the cache, a slot cleared), React runs it once
  more straight away; here that further run is left to the next event.
\<close>

definition deps :: "screen \<Rightarrow> string option \<times> string option \<times> nat \<times> nat" where
  "deps s = (device1SlugParam s, device2SlugParam s, selectedDevicesId s, fetchDeviceDetailsId s)"

definition commit :: "screen \<Rightarrow> screen" where
  "commit s =
     (if effectDeps s = Some (deps s) then s
      else (reconciliation s)\<lparr>effectDeps := Some (deps s)\<rparr>)"

subsection \<open>Selecting and removing a device\<close>

definition handleSelectDevice :: "post \<Rightarrow> nat \<Rightarrow> screen \<Rightarrow> screen" where
  "handleSelectDevice device idx s =
     setParams idx (Some (slug device))
       (setCurrentSearchResults []
         (setSearchQueries idx []
           (fetchDeviceDetails (fetchedDevicesCache s) (slug device) idx s)))"

definition handleRemoveDevice :: "nat \<Rightarrow> screen \<Rightarrow> screen" where
  "handleRemoveDevice idx s =
     setCurrentSearchResults []
       (setSearchQueries idx []
         (setParams idx None
           (setSelectedDevices idx None s)))"

subsection \<open>Events\<close>

text \<open>
  What can happen to the screen: the user types, picks a result or removes a device, the
  navigation parameters change, time passes, a request is answered. An answer is taken
  only for a request under way. After every event the component renders and the effect
  runs if it is due.
\<close>

datatype event =
    ChangeText string nat
  | Select post nat
  | Remove nat
  | Navigate "string option" "string option"
  | Elapse nat
  | SearchAnswer string "post list outcome"
  | DetailAnswer string nat "post option outcome"

fun handle :: "event \<Rightarrow> screen \<Rightarrow> screen" where
  "handle (ChangeText text idx) s = handleSearchInputChange text idx s"
| "handle (Select device idx) s = handleSelectDevice device idx s"
| "handle (Remove idx) s = handleRemoveDevice idx s"
| "handle (Navigate p1 p2) s = s\<lparr>device1SlugParam := p1, device2SlugParam := p2\<rparr>"
| "handle (Elapse d) s = elapse d s"
| "handle (SearchAnswer query answer) s =
     (if query \<in> set (searchesInFlight s)
      then searchPostsResume answer (s\<lparr>searchesInFlight := remove1 query (searchesInFlight s)\<rparr>)
      else s)"
| "handle (DetailAnswer deviceSlug idx answer) s =
     (if (deviceSlug, idx) \<in> set (detailsInFlight s)
      then fetchDeviceDetailsResume deviceSlug idx answer
             (s\<lparr>detailsInFlight := remove1 (deviceSlug, idx) (detailsInFlight s)\<rparr>)
      else s)"

definition step :: "event \<Rightarrow> screen \<Rightarrow> screen" where
  "step e s = commit (handle e s)"

definition run :: "event list \<Rightarrow> screen \<Rightarrow> screen" where
  "run es s = fold step es s"

text \<open>A run of key strokes, each after a pause: (pause, text, slot).\<close>

definition typing :: "(nat \<times> string \<times> nat) list \<Rightarrow> event list" where
  "typing ks = concat (map (\<lambda>(d, text, idx). [Elapse d, ChangeText text idx]) ks)"

subsection \<open>The table of the selected devices\<close>

text \<open>
  \<^verbatim>\<open>selectedDevices[i] ? extractSpecifications(selectedDevices[i].content || "") : {}\<close>
\<close>

definition deviceSpecs :: "(string \<Rightarrow> node) \<Rightarrow> post option \<Rightarrow> specs" where
  "deviceSpecs parseFromString selected =
     (case selected of
        Some d \<Rightarrow>
          extractSpecifications parseFromString (case content d of Some c \<Rightarrow> c | None \<Rightarrow> [])
      | None \<Rightarrow> Map.empty)"

text \<open>The table, or nothing when the prompt to select devices is shown instead.\<close>

definition renderComparisonTable :: "(string \<Rightarrow> node) \<Rightarrow> screen \<Rightarrow> block list option" where
  "renderComparisonTable parseFromString s =
     (let device1Specs = deviceSpecs parseFromString (slotOf (selectedDevices s) 0);
          device2Specs = deviceSpecs parseFromString (slotOf (selectedDevices s) 1)
      in if slotOf (selectedDevices s) 0 \<noteq> None \<or> slotOf (selectedDevices s) 1 \<noteq> None
         then Some (tableBody device1Specs device2Specs)
         else None)"

subsection \<open>Predicates of the statements\<close>

text \<open>Every pending timeout is the one the debounce store remembers.\<close>

definition debounceOnly :: "screen \<Rightarrow> bool" where
  "debounceOnly s =
     list_all (\<lambda>(j, at, q). debounceTimeoutRefs s funcName = Some j) (timers s)"

text \<open>
  The state right after a key stroke: one timeout is pending, set a moment ago for the
  text \<open>q\<close>, and it is the one the debounce store remembers.
\<close>

definition armed :: "screen \<Rightarrow> string \<Rightarrow> bool" where
  "armed s q =
     (timers s = [(nextTimer s - 1, clock s + delay, q)] \<and>
      debounceTimeoutRefs s funcName = Some (nextTimer s - 1))"

text \<open>An event that brings no new text, or a blank one.\<close>

fun quiet :: "event \<Rightarrow> bool" where
  "quiet (ChangeText q idx) = (trim q = [])"
| "quiet e = True"

text \<open>
  A slot agrees with its navigation parameter: no usable parameter and no device, or a
  device whose slug is the parameter.
\<close>

fun matchesParam :: "string option \<Rightarrow> post option \<Rightarrow> bool" where
  "matchesParam p None = (\<not> truthy p)"
| "matchesParam p (Some d) = (truthy p \<and> p = Some (slug d))"

definition consistent :: "screen \<Rightarrow> bool" where
  "consistent s =
     (matchesParam (device1SlugParam s) (slotOf (selectedDevices s) 0) \<and>
      matchesParam (device2SlugParam s) (slotOf (selectedDevices s) 1))"

text \<open>No timeout is pending, no search is under way, and the result list is empty.\<close>

definition idle :: "screen \<Rightarrow> bool" where
  "idle s = (timers s = [] \<and> searchesInFlight s = [] \<and> currentSearchResults s = [])"

text \<open>Two devices, and the state in which both have been opened from the parameters.\<close>

definition phoneA :: post where
  "phoneA = \<lparr>post_id = ''1'', title = ''Phone A'', slug = ''phone-a'', content = Some [],
     sourceUrl = None\<rparr>"

definition phoneB :: post where
  "phoneB = \<lparr>post_id = ''2'', title = ''Phone B'', slug = ''phone-b'', content = Some [],
     sourceUrl = None\<rparr>"

definition bothSelected :: screen where
  "bothSelected =
     run [Navigate (Some ''phone-a'') (Some ''phone-b''),
          DetailAnswer ''phone-a'' 0 (Ok (Some phoneA)),
          DetailAnswer ''phone-b'' 1 (Ok (Some phoneB))] initial"

section \<open>The extractor on concrete bodies\<close>

lemmas extract_eval =
  extractSpecifications_def addBlock_def assign_def group_def between_def specRegex_def
  cleanHTMLContent_def tagRegex_def spacesRegex_def trim_def isSpace_def

lemma parseMarkup_size_table:
  "parseMarkup ''<table><tr><td>Size</td><td>6.1 in</td></tr></table>'' =
     Element ''#document'' [Element ''table'' [Element ''tr''
       [Element ''td'' [Text ''Size''], Element ''td'' [Text ''6.1 in'']]]]"
  by (simp add: parseMarkup_def isSpace_def)

text \<open>
  Claim C1. For the body
  \<^verbatim>\<open><h3>Display</h3><figure><table><tr><td>Size</td><td>6.1 in</td></tr></table></figure>\<close>
  the extractor returns exactly the mapping with the one category \<open>Display\<close>, holding the
  one entry with attribute \<open>Size\<close> and value \<open>6.1 in\<close>. The table handed to the parser
  is the text of the matched table between fresh \<^verbatim>\<open><table>\<close> tags; the statement holds for
  every parser that reads this table as one row of two cells.
\<close>

theorem extract_display_scenario:
  assumes "parseFromString ''<table><tr><td>Size</td><td>6.1 in</td></tr></table>'' =
     Element ''#document'' [Element ''table'' [Element ''tr''
       [Element ''td'' [Text ''Size''], Element ''td'' [Text ''6.1 in'']]]]"
  shows "extractSpecifications parseFromString
     ''<h3>Display</h3><figure><table><tr><td>Size</td><td>6.1 in</td></tr></table></figure>'' =
     [''Display'' \<mapsto> [\<lparr>specification = ''Size'', value = ''6.1 in''\<rparr>]]"
  using assms by (simp add: extract_eval)

theorem extract_display_scenario_witness:
  "extractSpecifications parseMarkup
     ''<h3>Display</h3><figure><table><tr><td>Size</td><td>6.1 in</td></tr></table></figure>'' =
     [''Display'' \<mapsto> [\<lparr>specification = ''Size'', value = ''6.1 in''\<rparr>]]"
  using extract_display_scenario [of parseMarkup, OF parseMarkup_size_table] .

text \<open>
  Claim C10. A heading followed by a bare table is not left alone when a heading with a
  table in a figure comes later: the lazy first group runs on over the bare table to the
  later heading, so the match starts at the first heading. On the body
  \<^verbatim>\<open><h3>Display</h3><table><tr><td>Size</td><td>6.1 in</td></tr></table><h3>Camera</h3><figure><table><tr><td>Main</td><td>50 MP</td></tr></table></figure>\<close>
  the extractor returns one category, named by the text of both headings and of the bare
  table, holding the row of the camera table; there is no category \<open>Camera\<close>.
\<close>

theorem extract_bare_table_joined:
  "extractSpecifications parseMarkup
     ''<h3>Display</h3><table><tr><td>Size</td><td>6.1 in</td></tr></table><h3>Camera</h3><figure><table><tr><td>Main</td><td>50 MP</td></tr></table></figure>'' =
     [''DisplaySize6.1 inCamera'' \<mapsto> [\<lparr>specification = ''Main'', value = ''50 MP''\<rparr>]]"
  by (simp add: extract_eval parseMarkup_def)

section \<open>Rows and categories of the extractor\<close>










text \<open>
  A body with no \<^verbatim>\<open><figure\<close> in it has no match. The proof goes through the matcher:
  a match of a pattern holds each literal of the pattern.
\<close>

lemma dropLit_append: "dropLit l s = Some s' \<Longrightarrow> s = l @ s'"
  by (induction l s rule: dropLit.induct) (auto split: if_splits)

lemma grow_left: "xs = u @ l @ v \<Longrightarrow> \<exists>u v. x # xs = u @ l @ v"
  by (metis append_Cons)

lemma rmatch_holds_literal:
  "rmatch r s ms = Some res \<Longrightarrow> Lit l \<in> set r \<Longrightarrow> \<exists>u v. s = u @ l @ v"
proof (induction r s ms arbitrary: res rule: rmatch.induct)
  case (2 l' r s ms)
  from "2.prems"(1) obtain s' where d: "dropLit l' s = Some s'" and m: "rmatch r s' ms = Some res"
    by (auto split: option.splits)
  show ?case
  proof (cases "l = l'")
    case True
    with dropLit_append [OF d] have "s = [] @ l @ s'" by simp
    then show ?thesis by blast
  next
    case False
    with "2.prems"(2) have "Lit l \<in> set r" by simp
    from "2.IH" [OF d m this] obtain u v where "s' = u @ l @ v" by blast
    with dropLit_append [OF d] have "s = (l' @ u) @ l @ v" by simp
    then show ?thesis by blast
  qed
next
  case (4 c r x xs ms)
  then obtain u v where "xs = u @ l @ v"
    by (auto split: if_splits)
  then show ?case by (rule grow_left)
next
  case (6 c r x xs ms)
  show ?case
  proof (cases "inClass c x")
    case False
    with "6.prems" "6.IH"(3) show ?thesis by auto
  next
    case True
    show ?thesis
    proof (cases "rmatch (Star c # r) xs ms")
      case None
      with True "6.prems" "6.IH"(2) show ?thesis by auto
    next
      case (Some m)
      with True "6.prems" "6.IH"(1) [of m] obtain u v where "xs = u @ l @ v" by auto
      then show ?thesis by (rule grow_left)
    qed
  qed
next
  case (8 c r x xs ms)
  then obtain u v where "xs = u @ l @ v"
    by (auto split: if_splits)
  then show ?case by (rule grow_left)
next
  case (10 c r x xs ms)
  show ?case
  proof (cases "rmatch r (x # xs) ms")
    case None
    with "10.prems" "10.IH"(2) [of res] obtain u v where "xs = u @ l @ v"
      by (auto split: if_splits)
    then show ?thesis by (rule grow_left)
  next
    case (Some a)
    with "10.prems" "10.IH"(1) show ?thesis by auto
  qed
next
  case (12 c r x xs ms)
  then obtain u v where "xs = u @ l @ v"
    by (auto split: if_splits)
  then show ?case by (rule grow_left)
qed auto

lemma exec_holds_literal:
  "exec r s = Some res \<Longrightarrow> Lit l \<in> set r \<Longrightarrow> \<exists>u v. s = u @ l @ v"
proof (induction s)
  case Nil
  then show ?case using rmatch_holds_literal [of r "[]" "[]" res l] by simp
next
  case (Cons x xs)
  show ?case
  proof (cases "rmatch r (x # xs) []")
    case None
    with Cons obtain u v where "xs = u @ l @ v" by auto
    then show ?thesis by (rule grow_left)
  next
    case (Some a)
    with Cons.prems rmatch_holds_literal [of r "x # xs" "[]" a l] show ?thesis by simp
  qed
qed

lemma extract_without_figure:
  assumes "\<nexists>u v. body = u @ ''<figure'' @ v"
  shows "extractSpecifications parseFromString body = Map.empty"
proof -
  have "exec specRegex body = None"
  proof (cases "exec specRegex body")
    case (Some res)
    have "Lit ''<figure'' \<in> set specRegex"
      by (simp add: specRegex_def)
    from exec_holds_literal [OF Some this] assms show ?thesis by blast
  qed simp
  then show ?thesis
    by (simp add: extractSpecifications_def specLoop.simps)
qed

section \<open>The comparison table\<close>

lemma set_setAdd: "set (setAdd s x) = insert x (set s)"
  by (auto simp: setAdd_def)

lemma distinct_setAdd: "distinct s \<Longrightarrow> distinct (setAdd s x)"
  by (simp add: setAdd_def)

lemma set_addSpecs: "set (addSpecs es s) = set s \<union> specification ` set es"
  unfolding addSpecs_def by (induction es arbitrary: s) (auto simp: set_setAdd)

lemma distinct_addSpecs: "distinct s \<Longrightarrow> distinct (addSpecs es s)"
  unfolding addSpecs_def by (induction es arbitrary: s) (auto simp: distinct_setAdd)

lemma set_fold_categories:
  "set (fold (\<lambda>c s. addSpecs (entriesOf B c) (addSpecs (entriesOf A c) s)) cs s0) =
     set s0 \<union>
     (\<Union>c\<in>set cs. specification ` set (entriesOf A c) \<union> specification ` set (entriesOf B c))"
  by (induction cs arbitrary: s0) (auto simp: set_addSpecs)

lemma distinct_fold_categories:
  "distinct s0 \<Longrightarrow>
   distinct (fold (\<lambda>c s. addSpecs (entriesOf B c) (addSpecs (entriesOf A c) s)) cs s0)"
  by (induction cs arbitrary: s0) (auto simp: distinct_addSpecs)

lemma set_allSpecs:
  "set (allSpecs A B) =
     (\<Union>c\<in>set categories. specification ` set (entriesOf A c) \<union> specification ` set (entriesOf B c))"
  by (simp add: allSpecs_def set_fold_categories)

lemma distinct_allSpecs: "distinct (allSpecs A B)"
  by (simp add: allSpecs_def distinct_fold_categories)

text \<open>The order in which the set was filled is lost in the sort.\<close>

lemma sortedAllSpecs_swap: "sortedAllSpecs B A = sortedAllSpecs A B"
  unfolding sortedAllSpecs_def
  by (rule sorted_distinct_set_unique) (auto simp: set_allSpecs distinct_allSpecs)

lemma list_ex_spec: "list_ex (\<lambda>s. specification s = n) es \<longleftrightarrow> n \<in> specification ` set es"
  by (auto simp: list_ex_iff)

lemma categorySpecsInUse_eq:
  assumes "c \<in> set categories"
  shows "categorySpecsInUse A B c =
         sorted_list_of_set
           (specification ` set (entriesOf A c) \<union> specification ` set (entriesOf B c))"
proof -
  let ?N = "specification ` set (entriesOf A c) \<union> specification ` set (entriesOf B c)"
  have sub: "?N \<subseteq> set (allSpecs A B)"
    using assms by (auto simp: set_allSpecs)
  have "sorted (categorySpecsInUse A B c)" "distinct (categorySpecsInUse A B c)"
    by (simp_all add: categorySpecsInUse_def sortedAllSpecs_def distinct_allSpecs
        sorted_wrt_filter)
  moreover have "set (categorySpecsInUse A B c) = ?N"
    using sub by (auto simp: categorySpecsInUse_def sortedAllSpecs_def list_ex_spec)
  ultimately show ?thesis
    by (metis sorted_list_of_set.idem_if_sorted_distinct)
qed

lemma categorySpecsInUse_swap: "categorySpecsInUse B A c = categorySpecsInUse A B c"
  by (simp add: categorySpecsInUse_def sortedAllSpecs_swap disj_commute)

lemma categorySpecsInUse_Nil:
  assumes "c \<in> set categories"
  shows "categorySpecsInUse A B c = [] \<longleftrightarrow>
     specification ` set (entriesOf A c) \<union> specification ` set (entriesOf B c) = {}"
proof -
  have "finite (specification ` set (entriesOf A c) \<union> specification ` set (entriesOf B c))"
    by simp
  then show ?thesis
    unfolding categorySpecsInUse_eq [OF assms] by (rule sorted_list_of_set_eq_Nil_iff)
qed

lemma attributes_of_block:
  "map (\<lambda>b. (category b, map attribute (rows b)))
     (let inUse = categorySpecsInUse A B c
      in if length inUse = 0 then []
         else [\<lparr>category = c,
                rows = map (\<lambda>specName.
                    \<lparr>attribute = specName,
                     valueA = getSpecValue A c specName,
                     valueB = getSpecValue B c specName\<rparr>) inUse\<rparr>]) =
   (if categorySpecsInUse A B c = [] then [] else [(c, categorySpecsInUse A B c)])"
  by (simp add: Let_def comp_def)

text \<open>
  Claim C2. For every pair of specification maps the table lists, in the fixed order
  General, Display, Hardware, Camera, Software, Connectivity, Sensors, Battery, exactly
  those of these categories for which one of the devices has an entry; no other category
  appears. The attributes of the rows of a category are the distinct attribute names of
  either device's entries for that category, sorted in the lexicographic order.
\<close>

theorem table_categories_and_rows:
  "map (\<lambda>b. (category b, map attribute (rows b))) (tableBody A B) =
   map (\<lambda>c. (c, sorted_list_of_set
                 (specification ` set (entriesOf A c) \<union> specification ` set (entriesOf B c))))
     (filter (\<lambda>c. specification ` set (entriesOf A c) \<union> specification ` set (entriesOf B c) \<noteq> {})
        [''General'', ''Display'', ''Hardware'', ''Camera'', ''Software'',
         ''Connectivity'', ''Sensors'', ''Battery''])"
proof -
  have "concat (map (\<lambda>c. if categorySpecsInUse A B c = [] then []
                          else [(c, categorySpecsInUse A B c)]) cs) =
        map (\<lambda>c. (c, sorted_list_of_set
                 (specification ` set (entriesOf A c) \<union> specification ` set (entriesOf B c))))
          (filter (\<lambda>c. specification ` set (entriesOf A c) \<union>
                        specification ` set (entriesOf B c) \<noteq> {}) cs)"
    if "set cs \<subseteq> set categories" for cs
    using that
  proof (induction cs)
    case Nil
    then show ?case by simp
  next
    case (Cons c cs)
    then have c: "c \<in> set categories" by simp
    from Cons categorySpecsInUse_Nil [OF c, of A B] categorySpecsInUse_eq [OF c, of A B]
    show ?case by simp
  qed
  from this [of categories] show ?thesis
    unfolding tableBody_def map_concat map_map comp_def attributes_of_block
    by (simp add: categories_def)
qed

lemma tableBody_swap_block:
  "(let inUse = categorySpecsInUse B A c
      in if length inUse = 0 then []
         else [\<lparr>category = c,
                rows = map (\<lambda>specName.
                    \<lparr>attribute = specName,
                     valueA = getSpecValue B c specName,
                     valueB = getSpecValue A c specName\<rparr>) inUse\<rparr>]) =
   map (\<lambda>b. b\<lparr>rows := map (\<lambda>r. \<lparr>attribute = attribute r, valueA = valueB r,
                                  valueB = valueA r\<rparr>) (rows b)\<rparr>)
   (let inUse = categorySpecsInUse A B c
      in if length inUse = 0 then []
         else [\<lparr>category = c,
                rows = map (\<lambda>specName.
                    \<lparr>attribute = specName,
                     valueA = getSpecValue A c specName,
                     valueB = getSpecValue B c specName\<rparr>) inUse\<rparr>])"
  by (simp add: Let_def categorySpecsInUse_swap [of B A] comp_def)

text \<open>
  Claim C3. For all specification maps A and B, the table of B and A is the table of A
  and B with the two value columns of every row exchanged: the categories, their order
  and the order of the attribute rows are the same.
\<close>

theorem table_swap_devices:
  "tableBody B A =
   map (\<lambda>b. b\<lparr>rows := map (\<lambda>r. \<lparr>attribute = attribute r, valueA = valueB r,
                                  valueB = valueA r\<rparr>) (rows b)\<rparr>)
     (tableBody A B)"
  by (simp add: tableBody_def map_concat comp_def tableBody_swap_block [where A = A and B = B]
      del: length_0_conv)






















text \<open>
  The table of two devices: an attribute one device lacks shows \<open>N/A\<close>, the rows are
  sorted, and a category outside the fixed list is not shown.
\<close>

lemma table_size_scenario:
  "tableBody [''Display'' \<mapsto> [\<lparr>specification = ''Size'', value = ''6.1 in''\<rparr>,
                              \<lparr>specification = ''Panel'', value = ''OLED''\<rparr>]]
             [''Display'' \<mapsto> [\<lparr>specification = ''Panel'', value = ''LCD''\<rparr>],
              ''Extras'' \<mapsto> [\<lparr>specification = ''Pen'', value = ''yes''\<rparr>]] =
   [\<lparr>category = ''Display'',
     rows = [\<lparr>attribute = ''Panel'', valueA = ''OLED'', valueB = ''LCD''\<rparr>,
             \<lparr>attribute = ''Size'', valueA = ''6.1 in'', valueB = ''N/A''\<rparr>]\<rparr>]"
  by code_simp

section \<open>Debounced search\<close>

lemmas setters =
  setSelectedDevices_def setFetchingIndividualDetails_def setSearchQueries_def
  setCurrentSearchResults_def setParams_def

text \<open>The effect touches neither the timeouts nor the searches.\<close>

lemma reconcileSlot_frame:
  "timers (reconcileSlot r ip s) = timers s"
  "clock (reconcileSlot r ip s) = clock s"
  "nextTimer (reconcileSlot r ip s) = nextTimer s"
  "debounceTimeoutRefs (reconcileSlot r ip s) = debounceTimeoutRefs s"
  "searchCalls (reconcileSlot r ip s) = searchCalls s"
  "searchesInFlight (reconcileSlot r ip s) = searchesInFlight s"
  "currentSearchResults (reconcileSlot r ip s) = currentSearchResults s"
  by (cases ip; simp add: reconcileSlot_def fetchDeviceDetails_def setters split: option.splits)+

lemma commit_frame:
  "timers (commit s) = timers s"
  "clock (commit s) = clock s"
  "nextTimer (commit s) = nextTimer s"
  "debounceTimeoutRefs (commit s) = debounceTimeoutRefs s"
  "searchCalls (commit s) = searchCalls s"
  "searchesInFlight (commit s) = searchesInFlight s"
  "currentSearchResults (commit s) = currentSearchResults s"
  by (simp_all add: commit_def reconciliation_def slugs_def reconcileSlot_frame)

lemma filter_debounceOnly:
  "debounceOnly s \<Longrightarrow> debounceTimeoutRefs s funcName = Some i \<Longrightarrow>
   filter (\<lambda>(j, due, q). j \<noteq> i) (timers s) = []"
  by (auto simp: debounceOnly_def list_all_iff filter_empty_conv)

lemma debounceOnly_None:
  "debounceOnly s \<Longrightarrow> debounceTimeoutRefs s funcName = None \<Longrightarrow> timers s = []"
  by (cases "timers s") (auto simp: debounceOnly_def)

lemma keystroke_arms:
  assumes "debounceOnly s" "trim q \<noteq> []"
  shows "armed (step (ChangeText q idx) s) q"
    and "searchCalls (step (ChangeText q idx) s) = searchCalls s"
proof -
  have "armed (handleSearchInputChange q idx s) q"
  proof (cases "debounceTimeoutRefs s funcName")
    case None
    with assms debounceOnly_None [OF assms(1)] show ?thesis
      by (simp add: armed_def handleSearchInputChange_def debouncedSearchHandler_def
          setters Let_def)
  next
    case (Some i)
    with assms filter_debounceOnly [OF assms(1) Some] show ?thesis
      by (simp add: armed_def handleSearchInputChange_def debouncedSearchHandler_def
          setters Let_def)
  qed
  then show "armed (step (ChangeText q idx) s) q"
    by (simp add: armed_def step_def commit_frame)
  show "searchCalls (step (ChangeText q idx) s) = searchCalls s"
    using assms(2)
    by (cases "debounceTimeoutRefs s funcName")
       (simp_all add: step_def commit_frame handleSearchInputChange_def
          debouncedSearchHandler_def setters Let_def)
qed

lemma pause_keeps:
  assumes "armed s q" "d < delay"
  shows "debounceOnly (step (Elapse d) s)"
    and "searchCalls (step (Elapse d) s) = searchCalls s"
  using assms
  by (simp_all add: armed_def debounceOnly_def step_def commit_frame elapse_def Let_def)

lemma wait_fires:
  assumes "armed s q" "delay \<le> w" "trim q \<noteq> []"
  shows "searchCalls (step (Elapse w) s) = searchCalls s @ [q]"
    and "timers (step (Elapse w) s) = []"
  using assms
  by (simp_all add: armed_def step_def commit_frame elapse_def Let_def searchPosts_def)

lemma run_Cons: "run (e # es) s = run es (step e s)"
  by (simp add: run_def)

lemma run_append: "run (es @ fs) s = run fs (run es s)"
  by (simp add: run_def)

lemma typing_Cons: "typing ((d, q, idx) # ks) = Elapse d # ChangeText q idx # typing ks"
  by (simp add: typing_def)

lemma typing_keeps_armed:
  assumes "armed s q" "list_all (\<lambda>(d, t, i). d < delay \<and> trim t \<noteq> []) ks"
  shows "armed (run (typing ks) s) (last (q # map (fst \<circ> snd) ks)) \<and>
         searchCalls (run (typing ks) s) = searchCalls s"
  using assms
proof (induction ks arbitrary: s q)
  case Nil
  then show ?case by (simp add: typing_def run_def)
next
  case (Cons k ks)
  obtain d t i where k: "k = (d, t, i)" by (cases k)
  from Cons.prems k have d: "d < delay" and t: "trim t \<noteq> []"
    and rest: "list_all (\<lambda>(d, t, i). d < delay \<and> trim t \<noteq> []) ks"
    by simp_all
  let ?s1 = "step (Elapse d) s"
  let ?s2 = "step (ChangeText t i) ?s1"
  have a2: "armed ?s2 t"
    using keystroke_arms(1) [OF pause_keeps(1) [OF Cons.prems(1) d] t] .
  have c2: "searchCalls ?s2 = searchCalls s"
    using keystroke_arms(2) [OF pause_keeps(1) [OF Cons.prems(1) d] t]
      pause_keeps(2) [OF Cons.prems(1) d] by simp
  from Cons.IH [OF a2 rest] c2 show ?case
    by (cases "ks = []") (simp_all add: k typing_Cons run_Cons)
qed

lemma last_text_not_blank:
  assumes "trim q \<noteq> []" "list_all (\<lambda>(d, t, i). d < delay \<and> trim t \<noteq> []) ks"
  shows "trim (last (q # map (fst \<circ> snd) ks)) \<noteq> []"
proof (cases "ks = []")
  case True
  with assms(1) show ?thesis by simp
next
  case False
  then have "last ks \<in> set ks" by simp
  with assms(2) have "case last ks of (d, t, i) \<Rightarrow> d < delay \<and> trim t \<noteq> []"
    by (simp add: list_all_iff)
  with False show ?thesis
    by (cases "last ks") (simp add: last_map)
qed

text \<open>Every state the screen can reach has only the debounce's own timeout pending.\<close>

lemma searchPosts_timers:
  "timers (searchPosts q s) = timers s"
  "debounceTimeoutRefs (searchPosts q s) = debounceTimeoutRefs s"
  by (simp_all add: searchPosts_def setters)

lemma fold_searchPosts_timers:
  "timers (fold (\<lambda>(i, at, q). searchPosts q) ts s) = timers s \<and>
   debounceTimeoutRefs (fold (\<lambda>(i, at, q). searchPosts q) ts s) = debounceTimeoutRefs s"
  by (induction ts arbitrary: s) (auto simp: searchPosts_timers)

lemma handle_debounceOnly:
  assumes "debounceOnly s"
  shows "debounceOnly (handle e s)"
proof (cases e)
  case (ChangeText q idx)
  show ?thesis
  proof (cases "trim q = []")
    case True
    with assms ChangeText show ?thesis
      by (simp add: debounceOnly_def handleSearchInputChange_def setters)
  next
    case False
    from keystroke_arms(1) [OF assms False, of idx]
    have "armed (step (ChangeText q idx) s) q" .
    then have "armed (handle (ChangeText q idx) s) q"
      by (simp add: armed_def step_def commit_frame)
    with ChangeText show ?thesis
      by (simp add: armed_def debounceOnly_def)
  qed
next
  case (Select d idx)
  with assms show ?thesis
    by (simp add: debounceOnly_def handleSelectDevice_def setters fetchDeviceDetails_def
        split: option.splits)
next
  case (Remove idx)
  with assms show ?thesis
    by (simp add: debounceOnly_def handleRemoveDevice_def setters)
next
  case (Navigate p1 p2)
  with assms show ?thesis
    by (simp add: debounceOnly_def)
next
  case (Elapse d)
  with assms show ?thesis
    by (simp add: debounceOnly_def elapse_def Let_def fold_searchPosts_timers list_all_iff)
next
  case (SearchAnswer q a)
  with assms show ?thesis
    by (simp add: debounceOnly_def searchPostsResume_def setters split: option.splits)
next
  case (DetailAnswer t idx a)
  with assms show ?thesis
    by (simp add: debounceOnly_def fetchDeviceDetailsResume_def setters split: option.splits)
qed

lemma step_debounceOnly: "debounceOnly s \<Longrightarrow> debounceOnly (step e s)"
  using handle_debounceOnly [of s e] by (simp add: step_def debounceOnly_def commit_frame)

lemma run_debounceOnly: "debounceOnly s \<Longrightarrow> debounceOnly (run es s)"
  by (induction es arbitrary: s) (simp_all add: run_def step_debounceOnly)

lemma reachable_debounceOnly: "debounceOnly (run es initial)"
  by (rule run_debounceOnly) (simp add: debounceOnly_def initial_def)

text \<open>
  Claim C4, as amended. Key strokes whose texts are not blank (not empty once trimmed)
  arrive one after another, each less than the delay after the one before, in either
  slot; then the delay passes. Exactly one search request is sent, with the text of the
  last key stroke, and no timeout is left pending: every earlier one was cancelled. The
  start is any state whose pending timeouts are the debounce's own, as every state reached
  from the initial one is.
\<close>

theorem debounce_one_call_last_text:
  assumes "debounceOnly s" "trim q \<noteq> []"
    and "list_all (\<lambda>(d, t, i). d < delay \<and> trim t \<noteq> []) ks" "delay \<le> w"
  shows "searchCalls (run (ChangeText q idx # typing ks @ [Elapse w]) s) =
           searchCalls s @ [last (q # map (fst \<circ> snd) ks)] \<and>
         timers (run (ChangeText q idx # typing ks @ [Elapse w]) s) = []"
proof -
  let ?s1 = "step (ChangeText q idx) s"
  let ?s2 = "run (typing ks) ?s1"
  note k = keystroke_arms [OF assms(1,2), of idx]
  from typing_keeps_armed [OF k(1) assms(3)]
  have a: "armed ?s2 (last (q # map (fst \<circ> snd) ks))"
    and c: "searchCalls ?s2 = searchCalls ?s1" by simp_all
  from wait_fires [OF a assms(4) last_text_not_blank [OF assms(2,3)]] c k(2) show ?thesis
    by (simp add: run_Cons run_append run_def)
qed

theorem debounce_one_call_last_text_witness:
  "debounceOnly initial \<and> trim ''ip'' \<noteq> [] \<and>
   list_all (\<lambda>(d, t, i). d < delay \<and> trim t \<noteq> []) [(100, ''iph'', 0), (150, ''ipho'', 0)] \<and>
   delay \<le> 500 \<and>
   searchCalls (run (ChangeText ''ip'' 0 # typing [(100, ''iph'', 0), (150, ''ipho'', 0)] @ [Elapse 500])
     initial) = [''ipho''] \<and>
   timers (run (ChangeText ''ip'' 0 # typing [(100, ''iph'', 0), (150, ''ipho'', 0)] @ [Elapse 500])
     initial) = []"
proof -
  have h1: "debounceOnly initial"
    by (simp add: debounceOnly_def initial_def)
  have h2: "trim ''ip'' \<noteq> []"
    by (simp add: trim_def isSpace_def)
  have h3: "list_all (\<lambda>(d, t, i). d < delay \<and> trim t \<noteq> [])
      [(100, ''iph'', 0), (150, ''ipho'', 0)]"
    by (simp add: delay_def trim_def isSpace_def)
  have h4: "delay \<le> 500"
    by (simp add: delay_def)
  have "searchCalls initial = []"
    by (simp add: initial_def)
  with debounce_one_call_last_text [OF h1 h2 h3 h4, of 0] h1 h2 h3 h4 show ?thesis
    by simp
qed

text \<open>
  Claim C4 as stated fails for a text that is not empty but blank: the handler tests the
  trimmed text. A single space sets no timeout, so after the delay no request has been
  sent; and a space typed after \<open>ip\<close> does not cancel the timeout of \<open>ip\<close>, so the one
  request sent carries \<open>ip\<close>, not the most recent text.
\<close>

theorem debounce_blank_text_counterexample:
  "searchCalls (run [ChangeText '' '' 0, Elapse 500] initial) = [] \<and>
   searchCalls (run [ChangeText ''ip'' 0, Elapse 100, ChangeText '' '' 0, Elapse 500] initial) =
     [''ip'']"
  by (simp add: run_def step_def commit_def initial_def handleSearchInputChange_def deps_def
      reconciliation_def slugs_def reconcileSlot_def slotOf_def setters
      debouncedSearchHandler_def trim_def isSpace_def funcName_def delay_def elapse_def
      searchPosts_def)

section \<open>Clearing the search text\<close>

lemmas machine_eval =
  run_def step_def commit_def deps_def reconciliation_def slugs_def reconcileSlot_def slotOf_def
  setters handleSearchInputChange_def debouncedSearchHandler_def funcName_def delay_def
  elapse_def searchPosts_def searchPostsResume_def fetchDeviceDetails_def
  fetchDeviceDetailsResume_def handleSelectDevice_def handleRemoveDevice_def
  initial_def trim_def isSpace_def

lemma fetchDeviceDetails_frame:
  "timers (fetchDeviceDetails cache t idx s) = timers s"
  "searchesInFlight (fetchDeviceDetails cache t idx s) = searchesInFlight s"
  "currentSearchResults (fetchDeviceDetails cache t idx s) = currentSearchResults s"
  by (simp_all add: fetchDeviceDetails_def setters split: option.splits)

lemma handle_quiet_idle:
  assumes "idle s" "quiet e"
  shows "idle (handle e s)"
proof (cases e)
  case (ChangeText q idx)
  with assms show ?thesis
    by (simp add: idle_def handleSearchInputChange_def setters)
next
  case (Select d idx)
  with assms show ?thesis
    by (simp add: idle_def handleSelectDevice_def setters fetchDeviceDetails_frame)
next
  case (Remove idx)
  with assms show ?thesis
    by (simp add: idle_def handleRemoveDevice_def setters)
next
  case (Navigate p1 p2)
  with assms show ?thesis
    by (simp add: idle_def)
next
  case (Elapse d)
  with assms show ?thesis
    by (simp add: idle_def elapse_def)
next
  case (SearchAnswer q a)
  with assms show ?thesis
    by (simp add: idle_def)
next
  case (DetailAnswer t idx a)
  with assms show ?thesis
    by (simp add: idle_def fetchDeviceDetailsResume_def setters split: option.splits)
qed

lemma step_quiet_idle: "idle s \<Longrightarrow> quiet e \<Longrightarrow> idle (step e s)"
  using handle_quiet_idle [of s e] by (simp add: step_def idle_def commit_frame)

lemma run_quiet_idle: "idle s \<Longrightarrow> list_all quiet es \<Longrightarrow> idle (run es s)"
  by (induction es arbitrary: s) (simp_all add: run_def step_quiet_idle)

text \<open>
  Claim C9, as amended. In every state, a change of the text of a slot to the empty or a
  blank text empties the shared result list at once; no timeout is set or cancelled and no
  request is sent. If at that moment no timeout is pending and no search is under way, the
  list stays empty through every run of events until a text that is not blank is typed.
\<close>

theorem clearing_empties_results:
  assumes "trim q = []"
  shows "currentSearchResults (step (ChangeText q idx) s) = [] \<and>
         timers (step (ChangeText q idx) s) = timers s \<and>
         searchCalls (step (ChangeText q idx) s) = searchCalls s \<and>
         (timers s = [] \<and> searchesInFlight s = [] \<and> list_all quiet es \<longrightarrow>
            currentSearchResults (run es (step (ChangeText q idx) s)) = [])"
proof -
  have 1: "currentSearchResults (step (ChangeText q idx) s) = []"
    and 2: "timers (step (ChangeText q idx) s) = timers s"
    and 3: "searchCalls (step (ChangeText q idx) s) = searchCalls s"
    and 4: "searchesInFlight (step (ChangeText q idx) s) = searchesInFlight s"
    using assms by (simp_all add: step_def commit_frame handleSearchInputChange_def setters)
  have "currentSearchResults (run es (step (ChangeText q idx) s)) = []"
    if "timers s = []" "searchesInFlight s = []" "list_all quiet es"
  proof -
    from that 1 2 4 have "idle (step (ChangeText q idx) s)"
      by (simp add: idle_def)
    from run_quiet_idle [OF this that(3)] show ?thesis
      by (simp add: idle_def)
  qed
  with 1 2 3 show ?thesis by blast
qed

theorem clearing_empties_results_witness:
  "trim [] = [] \<and>
   currentSearchResults
     (run [ChangeText ''ip'' 0, Elapse 500,
           SearchAnswer ''ip''
             (Ok [\<lparr>post_id = ''7'', title = ''iPhone'', slug = ''iphone'', content = None,
                    sourceUrl = None\<rparr>])] initial) \<noteq> [] \<and>
   list_all quiet [Elapse 500, ChangeText '' '' 1, Remove 0, Elapse 1000] \<and>
   currentSearchResults
     (run [Elapse 500, ChangeText '' '' 1, Remove 0, Elapse 1000]
        (step (ChangeText [] 0)
          (run [ChangeText ''ip'' 0, Elapse 500,
                SearchAnswer ''ip''
                  (Ok [\<lparr>post_id = ''7'', title = ''iPhone'', slug = ''iphone'', content = None,
                         sourceUrl = None\<rparr>])] initial))) = []"
proof -
  let ?s = "run [ChangeText ''ip'' 0, Elapse 500,
           SearchAnswer ''ip''
             (Ok [\<lparr>post_id = ''7'', title = ''iPhone'', slug = ''iphone'', content = None,
                    sourceUrl = None\<rparr>])] initial"
  let ?es = "[Elapse 500, ChangeText '' '' 1, Remove 0, Elapse 1000]"
  have h0: "trim [] = []"
    by (simp add: trim_def)
  have h1: "timers ?s = []" and h2: "searchesInFlight ?s = []"
    and r: "currentSearchResults ?s \<noteq> []"
    by (simp_all add: machine_eval)
  have h3: "list_all quiet ?es"
    by (simp add: trim_def isSpace_def)
  from clearing_empties_results [OF h0, of 0 ?s ?es] h1 h2 h3
  have "currentSearchResults (run ?es (step (ChangeText [] 0) ?s)) = []"
    by blast
  with h0 r h3 show ?thesis by blast
qed

text \<open>
  Claim C9 as stated fails: clearing the text does not cancel the timeout of the text
  typed before. After \<open>ip\<close> is typed and cleared the list is empty; then the timeout of
  \<open>ip\<close> runs and its answer fills the list, with no new text typed.
\<close>

theorem clearing_pending_timer_counterexample:
  "currentSearchResults (run [ChangeText ''ip'' 0, Elapse 100, ChangeText [] 0] initial) = [] \<and>
   currentSearchResults
     (run [ChangeText ''ip'' 0, Elapse 100, ChangeText [] 0, Elapse 500,
           SearchAnswer ''ip''
             (Ok [\<lparr>post_id = ''7'', title = ''iPhone'', slug = ''iphone'', content = None,
                    sourceUrl = None\<rparr>])] initial) =
     [\<lparr>post_id = ''7'', title = ''iPhone'', slug = ''iphone'', content = None, sourceUrl = None\<rparr>]"
  by (simp add: machine_eval)

section \<open>Reconciliation\<close>

lemma reconciliation_consistent: "consistent s \<Longrightarrow> reconciliation s = s"
  by (cases "slotOf (selectedDevices s) 0"; cases "slotOf (selectedDevices s) 1")
     (auto simp: consistent_def reconciliation_def slugs_def reconcileSlot_def)

lemma commit_consistent: "consistent s \<Longrightarrow> detailCalls (commit s) = detailCalls s"
  by (simp add: commit_def reconciliation_consistent)

text \<open>
  Claim C6. In every state in which each slot agrees with its navigation parameter, the
  reconciliation changes nothing, and a navigation to the same parameters sends no
  request. When the parameters go from \<open>phone-a\<close> and \<open>phone-b\<close>, both selected, to
  \<open>phone-a\<close> alone, the reconciliation clears slot 1 and sends no request; the state it
  leaves agrees with the parameters again.
\<close>

theorem reconciliation_idempotent:
  "(consistent s \<longrightarrow>
      reconciliation s = s \<and>
      detailCalls (step (Navigate (device1SlugParam s) (device2SlugParam s)) s) = detailCalls s) \<and>
   (device1SlugParam s = Some ''phone-a'' \<and> device2SlugParam s = Some ''phone-b'' \<and>
    selectedDevices s = [Some a, Some b] \<and> slug a = ''phone-a'' \<and> slug b = ''phone-b'' \<and>
    effectDeps s = Some (deps s) \<longrightarrow>
      selectedDevices (step (Navigate (Some ''phone-a'') None) s) = [Some a, None] \<and>
      detailCalls (step (Navigate (Some ''phone-a'') None) s) = detailCalls s \<and>
      detailsInFlight (step (Navigate (Some ''phone-a'') None) s) = detailsInFlight s \<and>
      consistent (step (Navigate (Some ''phone-a'') None) s))"
proof -
  have 1: "reconciliation s = s \<and>
      detailCalls (step (Navigate (device1SlugParam s) (device2SlugParam s)) s) = detailCalls s"
    if "consistent s"
    using that commit_consistent [OF that] by (simp add: reconciliation_consistent step_def)
  have 2: "selectedDevices (step (Navigate (Some ''phone-a'') None) s) = [Some a, None] \<and>
      detailCalls (step (Navigate (Some ''phone-a'') None) s) = detailCalls s \<and>
      detailsInFlight (step (Navigate (Some ''phone-a'') None) s) = detailsInFlight s \<and>
      consistent (step (Navigate (Some ''phone-a'') None) s)"
    if "device1SlugParam s = Some ''phone-a''" "device2SlugParam s = Some ''phone-b''"
      "selectedDevices s = [Some a, Some b]" "slug a = ''phone-a''" "slug b = ''phone-b''"
      "effectDeps s = Some (deps s)"
    using that
    by (simp add: step_def commit_def deps_def reconciliation_def slugs_def reconcileSlot_def
        slotOf_def setters consistent_def)
  from 1 2 show ?thesis by blast
qed

theorem reconciliation_idempotent_witness:
  "consistent bothSelected \<and>
   selectedDevices bothSelected = [Some phoneA, Some phoneB] \<and>
   reconciliation bothSelected = bothSelected \<and>
   detailCalls (step (Navigate (Some ''phone-a'') (Some ''phone-b'')) bothSelected) =
     detailCalls bothSelected \<and>
   selectedDevices (step (Navigate (Some ''phone-a'') None) bothSelected) = [Some phoneA, None] \<and>
   detailCalls (step (Navigate (Some ''phone-a'') None) bothSelected) = detailCalls bothSelected"
proof -
  have sel: "selectedDevices bothSelected = [Some phoneA, Some phoneB]"
    and p1: "device1SlugParam bothSelected = Some ''phone-a''"
    and p2: "device2SlugParam bothSelected = Some ''phone-b''"
    and ed: "effectDeps bothSelected = Some (deps bothSelected)"
    by (simp_all add: bothSelected_def machine_eval phoneA_def phoneB_def)
  have a: "slug phoneA = ''phone-a''" and b: "slug phoneB = ''phone-b''"
    by (simp_all add: phoneA_def phoneB_def)
  from sel p1 p2 a b have c: "consistent bothSelected"
    by (simp add: consistent_def slotOf_def)
  from reconciliation_idempotent [of bothSelected phoneA phoneB] c sel p1 p2 a b ed
  show ?thesis by simp
qed

section \<open>A failed fetch\<close>

text \<open>
  Claim C5. The screen is opened with the parameter \<open>device1\<close> naming \<open>phone-a\<close>; the
  effect sends the request. The request fails. The failure writes a fresh
  \<^verbatim>\<open>selectedDevices\<close> array, which is a dependency of the effect, so the effect runs
  again, finds the parameter set and the slot empty, and sends the request again: two
  requests with no action of the user between them, and the loading flag is set again.
  The same happens after an error payload and after a slug that names no post.
\<close>

theorem failed_fetch_is_sent_again:
  "detailCalls (run [Navigate (Some ''phone-a'') None] initial) = [''phone-a''] \<and>
   detailCalls (run [Navigate (Some ''phone-a'') None, DetailAnswer ''phone-a'' 0 NetworkError]
     initial) = [''phone-a'', ''phone-a''] \<and>
   fetchingIndividualDetails
     (run [Navigate (Some ''phone-a'') None, DetailAnswer ''phone-a'' 0 NetworkError] initial) =
     [True, False] \<and>
   detailCalls (run [Navigate (Some ''phone-a'') None, DetailAnswer ''phone-a'' 0 ApiError,
     DetailAnswer ''phone-a'' 0 (Ok None)] initial) = [''phone-a'', ''phone-a'', ''phone-a'']"
  by (simp add: machine_eval)

section \<open>The arrays of the component\<close>

text \<open>
  No handler changes the length of an array: in every state reached from the initial one
  the three arrays have their two elements, whatever indices the events carry.
\<close>

lemma fold_searchPosts_lengths:
  "length (selectedDevices (fold (\<lambda>(i, at, q). searchPosts q) ts s)) = length (selectedDevices s)"
  "length (fetchingIndividualDetails (fold (\<lambda>(i, at, q). searchPosts q) ts s)) =
     length (fetchingIndividualDetails s)"
  "length (searchQueries (fold (\<lambda>(i, at, q). searchPosts q) ts s)) = length (searchQueries s)"
  by (induction ts arbitrary: s) (auto simp: searchPosts_def setters)

lemma fetchDeviceDetails_lengths:
  "length (selectedDevices (fetchDeviceDetails cache t idx s)) = length (selectedDevices s)"
  "length (fetchingIndividualDetails (fetchDeviceDetails cache t idx s)) =
     length (fetchingIndividualDetails s)"
  "length (searchQueries (fetchDeviceDetails cache t idx s)) = length (searchQueries s)"
  by (simp_all add: fetchDeviceDetails_def setters split: option.splits)

lemma reconcileSlot_lengths:
  "length (selectedDevices (reconcileSlot r ip s)) = length (selectedDevices s)"
  "length (fetchingIndividualDetails (reconcileSlot r ip s)) = length (fetchingIndividualDetails s)"
  "length (searchQueries (reconcileSlot r ip s)) = length (searchQueries s)"
  by (cases ip; simp add: reconcileSlot_def fetchDeviceDetails_lengths setters)+

lemma commit_lengths:
  "length (selectedDevices (commit s)) = length (selectedDevices s)"
  "length (fetchingIndividualDetails (commit s)) = length (fetchingIndividualDetails s)"
  "length (searchQueries (commit s)) = length (searchQueries s)"
  by (simp_all add: commit_def reconciliation_def slugs_def reconcileSlot_lengths)

lemma handle_lengths:
  "length (selectedDevices (handle e s)) = length (selectedDevices s) \<and>
   length (fetchingIndividualDetails (handle e s)) = length (fetchingIndividualDetails s) \<and>
   length (searchQueries (handle e s)) = length (searchQueries s)"
proof (cases e)
  case (ChangeText q idx)
  then show ?thesis
    by (cases "debounceTimeoutRefs s funcName")
       (simp_all add: handleSearchInputChange_def debouncedSearchHandler_def setters Let_def)
next
  case (Select d idx)
  then show ?thesis
    by (auto simp: handleSelectDevice_def setters fetchDeviceDetails_lengths)
next
  case (Remove idx)
  then show ?thesis
    by (simp add: handleRemoveDevice_def setters)
next
  case (Navigate p1 p2)
  then show ?thesis
    by simp
next
  case (Elapse d)
  then show ?thesis
    by (simp add: elapse_def Let_def fold_searchPosts_lengths)
next
  case (SearchAnswer q a)
  then show ?thesis
    by (simp add: searchPostsResume_def setters split: option.splits)
next
  case (DetailAnswer t idx a)
  then show ?thesis
    by (simp add: fetchDeviceDetailsResume_def setters split: option.splits)
qed

lemma run_lengths:
  "length (selectedDevices (run es s)) = length (selectedDevices s) \<and>
   length (fetchingIndividualDetails (run es s)) = length (fetchingIndividualDetails s) \<and>
   length (searchQueries (run es s)) = length (searchQueries s)"
proof (induction es arbitrary: s)
  case Nil
  then show ?case by (simp add: run_def)
next
  case (Cons e es)
  from Cons [of "step e s"] handle_lengths [of e s] show ?case
    by (simp add: run_def step_def commit_lengths)
qed

lemma reachable_lengths:
  "length (selectedDevices (run es initial)) = 2 \<and>
   length (fetchingIndividualDetails (run es initial)) = 2 \<and>
   length (searchQueries (run es initial)) = 2"
  using run_lengths [of es initial] by (simp add: initial_def)

end
